theory Spec2Isabelle
  imports Main "HOL-Library.Word" "HOL-Library.Monad_Syntax"
begin

section \<open>The extended Euclidean algorithm of math/extended_euclid_algorithm.cpp\<close>

text \<open>
  The source works on \<open>uint64_t\<close> operands and writes its results through three
  out-parameters: \<open>uint64_t *GCD\<close>, \<open>int64_t *x\<close> and \<open>int64_t *y\<close>. Both integer types
  are modelled by \<open>64 word\<close>: \<open>+\<close>, \<open>-\<close> and \<open>*\<close> wrap modulo \<open>2 ^ 64\<close>, \<open>div\<close> and \<open>mod\<close>
  are the unsigned division of C++, \<open>unat\<close> reads a word as the unsigned value and \<open>sint\<close>
  as the two's complement value of an \<open>int64_t\<close>. The conversions between \<open>uint64_t\<close> and
  \<open>int64_t\<close> that the source performs (the assignment \<open>*x = s0\<close>, and the usual arithmetic
  conversions in \<open>temp - (A / B) * (*y)\<close>, which compute in \<open>uint64_t\<close>) keep the bit
  pattern, so they are the identity on \<open>64 word\<close>.

  The out-parameters become the returned triple \<open>(GCD, x, y)\<close>. The \<open>while\<close> loop and the
  recursion are modelled in the option monad, where \<open>None\<close> stands for a computation that
  does not return; that they always return is proved below.
\<close>

type_synonym u64 = "64 word"
type_synonym i64 = "64 word"

subsection \<open>\<open>update_step\<close> (lines 31 to 35)\<close>

text \<open>
  \<open>update_step r r0 quot\<close> returns the new values of \<open>( *r, *r0)\<close>. The source's parameter
  \<open>quotient\<close> is written \<open>quot\<close>.
\<close>

definition update_step :: "u64 \<Rightarrow> u64 \<Rightarrow> u64 \<Rightarrow> u64 \<times> u64" where
  "update_step r r0 quot = (let temp = r in (r0 - quot * temp, temp))"

subsection \<open>\<open>extendedEuclid_1\<close>, the iterative variant (lines 46 to 63)\<close>

text \<open>
  The loop of lines 54 to 59 on the six local variables; it returns their final values.
\<close>

partial_function (option) euclid_loop ::
  "u64 \<Rightarrow> u64 \<Rightarrow> u64 \<Rightarrow> u64 \<Rightarrow> u64 \<Rightarrow> u64 \<Rightarrow> (u64 \<times> u64 \<times> u64 \<times> u64 \<times> u64 \<times> u64) option"
where
  "euclid_loop r r0 s s0 t t0 =
     (if r \<noteq> 0 then
        (let quot = r0 div r;
             (r', r0') = update_step r r0 quot;
             (s', s0') = update_step s s0 quot;
             (t', t0') = update_step t t0 quot
         in euclid_loop r' r0' s' s0' t' t0')
      else Some (r, r0, s, s0, t, t0))"

declare euclid_loop.simps [code]

definition extendedEuclid_1 :: "u64 \<Rightarrow> u64 \<Rightarrow> (u64 \<times> i64 \<times> i64) option" where
  "extendedEuclid_1 A B =
     (let (A, B) = (if B > A then (B, A) else (A, B)) in
      do {
        (r, r0, s, s0, t, t0) \<leftarrow> euclid_loop B A 0 1 1 0;
        Some (r0, s0, t0)
      })"

subsection \<open>\<open>extendedEuclid\<close>, the recursive variant (lines 73 to 87)\<close>

partial_function (option) extendedEuclid :: "u64 \<Rightarrow> u64 \<Rightarrow> (u64 \<times> i64 \<times> i64) option"
where
  "extendedEuclid A B =
     (let (A, B) = (if B > A then (B, A) else (A, B)) in
      if B = 0 then Some (A, 1, 0)
      else do {
        (g, x, y) \<leftarrow> extendedEuclid B (A mod B);
        let temp = x;
        Some (g, y, temp - (A div B) * y)
      })"

declare extendedEuclid.simps [code]

section \<open>Unfolding the two variants\<close>

lemma update_step_eq: "update_step r r0 q = (r0 - q * r, r)"
  by (simp add: update_step_def)

lemma euclid_loop_zero: "euclid_loop 0 r0 s s0 t t0 = Some (0, r0, s, s0, t, t0)"
  by (subst euclid_loop.simps) simp

lemma euclid_loop_step:
  assumes "r \<noteq> 0"
  shows "euclid_loop r r0 s s0 t t0 =
         euclid_loop (r0 mod r) r (s0 - r0 div r * s) s (t0 - r0 div r * t) t"
  using assms
  by (subst euclid_loop.simps) (simp add: update_step_eq minus_div_mult_eq_mod Let_def)

lemma extendedEuclid_ordered:
  assumes "B \<le> A"
  shows "extendedEuclid A B =
         (if B = 0 then Some (A, 1, 0)
          else do {
            (g, x, y) \<leftarrow> extendedEuclid B (A mod B);
            Some (g, y, x - (A div B) * y)
          })"
proof -
  have "\<not> A < B"
    using assms by simp
  then show ?thesis
    by (subst extendedEuclid.simps) simp
qed

lemma extendedEuclid_swap:
  assumes "A < B"
  shows "extendedEuclid A B = extendedEuclid B A"
proof -
  have "extendedEuclid A B =
        (if A = 0 then Some (B, 1, 0)
         else do {
           (g, x, y) \<leftarrow> extendedEuclid A (B mod A);
           Some (g, y, x - (B div A) * y)
         })"
    using assms by (subst extendedEuclid.simps) simp
  moreover have "A \<le> B"
    using assms by simp
  ultimately show ?thesis
    by (simp add: extendedEuclid_ordered)
qed

lemma extendedEuclid_1_ordered:
  assumes "B \<le> A"
  shows "extendedEuclid_1 A B =
         do { (r, r0, s, s0, t, t0) \<leftarrow> euclid_loop B A 0 1 1 0; Some (r0, s0, t0) }"
proof -
  have "\<not> A < B"
    using assms by simp
  then show ?thesis
    by (simp add: extendedEuclid_1_def)
qed

lemma extendedEuclid_1_swap:
  assumes "A < B"
  shows "extendedEuclid_1 A B = extendedEuclid_1 B A"
proof -
  have "\<not> B < A"
    using assms by simp
  then show ?thesis
    using assms by (simp add: extendedEuclid_1_def)
qed

section \<open>The recursion on ordered operands\<close>

lemma word_mod_less_divisor_unat:
  fixes A B :: u64
  assumes "B \<noteq> 0"
  shows "unat (A mod B) < unat B"
  using assms by (simp add: unat_mod unat_gt_0)

lemma word_mod_le_divisor:
  fixes A B :: u64
  assumes "B \<noteq> 0"
  shows "A mod B \<le> B"
  using word_mod_less_divisor_unat [OF assms, of A] by (simp add: word_le_nat_alt)

lemma bezout_step:
  fixes A B x y :: u64
  shows "A * y + B * (x - A div B * y) = B * x + A mod B * y"
proof -
  have "A * y + B * (x - A div B * y) = B * x + (A - A div B * B) * y"
    by (simp add: algebra_simps)
  also have "A - A div B * B = A mod B"
    by (rule minus_div_mult_eq_mod)
  finally show ?thesis .
qed

lemma extendedEuclid_ordered_spec:
  "B \<le> A \<Longrightarrow>
   \<exists>g x y. extendedEuclid A B = Some (g, x, y) \<and> A * x + B * y = g \<and>
           unat g = gcd (unat A) (unat B)"
proof (induction "unat B" arbitrary: A B rule: less_induct)
  case less
  show ?case
  proof (cases "B = 0")
    case True
    then show ?thesis
      by (simp add: extendedEuclid_ordered)
  next
    case False
    have "unat (A mod B) < unat B" and "A mod B \<le> B"
      using False by (rule word_mod_less_divisor_unat, rule word_mod_le_divisor)
    from less.hyps [OF this] obtain g x y
      where call: "extendedEuclid B (A mod B) = Some (g, x, y)"
        and bez: "B * x + A mod B * y = g"
        and gc: "unat g = gcd (unat B) (unat (A mod B))"
      by blast
    have "extendedEuclid A B = Some (g, y, x - A div B * y)"
      using less.prems False call by (simp add: extendedEuclid_ordered)
    moreover have "A * y + B * (x - A div B * y) = g"
      using bez by (simp add: bezout_step)
    moreover have "unat g = gcd (unat A) (unat B)"
      using gc by (simp add: unat_mod gcd_red_nat [of "unat A" "unat B"])
    ultimately show ?thesis
      by blast
  qed
qed

section \<open>The loop against the recursion\<close>

text \<open>
  Each round of the loop multiplies the coefficient pairs \<open>(s0, s)\<close> and \<open>(t0, t)\<close> by the
  same step that the recursion applies on its way back, so the loop started from arbitrary
  coefficients returns the recursion's result combined with them.
\<close>

lemma euclid_loop_extendedEuclid:
  "r \<le> r0 \<Longrightarrow> extendedEuclid r0 r = Some (g, x, y) \<Longrightarrow>
   \<exists>s' t'. euclid_loop r r0 s s0 t t0 =
           Some (0, g, s', x * s0 + y * s, t', x * t0 + y * t)"
proof (induction "unat r" arbitrary: r r0 s s0 t t0 g x y rule: less_induct)
  case less
  show ?case
  proof (cases "r = 0")
    case True
    with less.prems show ?thesis
      by (simp add: extendedEuclid_ordered euclid_loop_zero)
  next
    case False
    let ?q = "r0 div r"
    have lt: "unat (r0 mod r) < unat r" and le: "r0 mod r \<le> r"
      using False by (rule word_mod_less_divisor_unat, rule word_mod_le_divisor)
    from less.prems False obtain x' y'
      where call: "extendedEuclid r (r0 mod r) = Some (g, x', y')"
        and x: "x = y'" and y: "y = x' - ?q * y'"
      by (auto simp add: extendedEuclid_ordered bind_eq_Some_conv)
    from less.hyps [OF lt le call] obtain s' t'
      where "euclid_loop (r0 mod r) r (s0 - ?q * s) s (t0 - ?q * t) t =
             Some (0, g, s', x' * s + y' * (s0 - ?q * s), t', x' * t + y' * (t0 - ?q * t))"
      by blast
    then show ?thesis
      using False by (simp add: euclid_loop_step x y algebra_simps)
  qed
qed

lemma extendedEuclid_1_eq_ordered:
  assumes "B \<le> A"
  shows "extendedEuclid_1 A B = extendedEuclid A B"
proof -
  from extendedEuclid_ordered_spec [OF assms] obtain g x y
    where rec: "extendedEuclid A B = Some (g, x, y)"
    by blast
  from euclid_loop_extendedEuclid [OF assms rec, of 0 1 1 0] obtain s' t'
    where "euclid_loop B A 0 1 1 0 = Some (0, g, s', x, t', y)"
    by auto
  then show ?thesis
    using assms rec by (simp add: extendedEuclid_1_ordered)
qed

section \<open>Both variants on arbitrary operands\<close>

lemma min_le_max_word:
  fixes A B :: u64
  shows "min A B \<le> max A B"
  by (auto simp add: min_def max_def)

lemma extendedEuclid_max_min: "extendedEuclid A B = extendedEuclid (max A B) (min A B)"
proof (cases "A < B")
  case True
  then have "max A B = B" and "min A B = A"
    by (auto simp add: max_def min_def)
  with True show ?thesis
    using extendedEuclid_swap [of A B] by simp
next
  case False
  then have "max A B = A" and "min A B = B"
    by (auto simp add: max_def min_def)
  then show ?thesis
    by simp
qed

lemma extendedEuclid_1_max_min: "extendedEuclid_1 A B = extendedEuclid_1 (max A B) (min A B)"
proof (cases "A < B")
  case True
  then have "max A B = B" and "min A B = A"
    by (auto simp add: max_def min_def)
  with True show ?thesis
    using extendedEuclid_1_swap [of A B] by simp
next
  case False
  then have "max A B = A" and "min A B = B"
    by (auto simp add: max_def min_def)
  then show ?thesis
    by simp
qed

lemma extendedEuclid_1_eq: "extendedEuclid_1 A B = extendedEuclid A B"
proof -
  have "extendedEuclid_1 (max A B) (min A B) = extendedEuclid (max A B) (min A B)"
    by (rule extendedEuclid_1_eq_ordered) (rule min_le_max_word)
  then show ?thesis
    using extendedEuclid_max_min [of A B] extendedEuclid_1_max_min [of A B] by simp
qed

lemma extendedEuclid_commute: "extendedEuclid A B = extendedEuclid B A"
  using extendedEuclid_max_min [of A B] extendedEuclid_max_min [of B A]
  by (simp add: max.commute min.commute)

lemma gcd_unat_max_min:
  fixes A B :: u64
  shows "gcd (unat (max A B)) (unat (min A B)) = gcd (unat A) (unat B)"
  by (simp add: max_def min_def gcd.commute)

lemma extendedEuclid_spec:
  "\<exists>g x y. extendedEuclid A B = Some (g, x, y) \<and> max A B * x + min A B * y = g \<and>
          unat g = gcd (unat A) (unat B)"
  using extendedEuclid_ordered_spec [OF min_le_max_word, of A B] extendedEuclid_max_min [of A B]
  by (simp add: gcd_unat_max_min)

lemma extendedEuclid_zero_right: "extendedEuclid A 0 = Some (A, 1, 0)"
  by (simp add: extendedEuclid_ordered)

lemma extendedEuclid_zero_left: "extendedEuclid 0 B = Some (B, 1, 0)"
  using extendedEuclid_commute [of 0 B] by (simp add: extendedEuclid_zero_right)

lemma unat_bezout_wraps:
  fixes a b x y :: u64
  shows "unat (a * x + b * y) = (unat a * unat x + unat b * unat y) mod 2 ^ 64"
  by (simp add: unat_word_ariths mod_simps)

section \<open>The claims\<close>

text \<open>
  C1. The claim: for every pair \<open>A\<close>, \<open>B\<close> each variant returns \<open>(GCD, X, Y)\<close> with
  \<open>A * X + B * Y = GCD\<close> for the original, unswapped arguments, under 64-bit wrap-around.
  The file's header documents the same identity, \<open>gcd(a, b) = a * x + b * y\<close>, but lines 47,
  48 and 74, 75 swap the operands when \<open>B > A\<close> and never exchange the coefficients back.
  On the input \<open>(15, 35)\<close> both variants return \<open>(5, 1, -2)\<close>, the coefficients of
  \<open>(35, 15)\<close>, and \<open>15 * 1 + 35 * (-2)\<close> is \<open>-55\<close>, not \<open>5\<close>.
\<close>

theorem C1_bezout_original_order_fails:
  "extendedEuclid 15 35 = Some (5, 1, - 2) \<and>
   extendedEuclid_1 15 35 = Some (5, 1, - 2) \<and>
   (15 * 1 + 35 * (- 2) :: u64) \<noteq> 5 \<and>
   15 * sint (1 :: i64) + 35 * sint (- 2 :: i64) = - 55"
proof -
  have "extendedEuclid 15 35 = Some (5, 1, - 2)"
    by (simp add: extendedEuclid.simps)
  moreover have "extendedEuclid_1 15 35 = Some (5, 1, - 2)"
    by (simp add: extendedEuclid_1_def euclid_loop.simps update_step_def)
  ultimately show ?thesis
    by simp
qed

text \<open>
  C2. For every pair \<open>(A, B)\<close> the iterative \<open>extendedEuclid_1\<close> and the recursive
  \<open>extendedEuclid\<close> return the same triple \<open>(GCD, X, Y)\<close>.
\<close>

theorem C2_variants_identical:
  "\<exists>g x y. extendedEuclid_1 A B = Some (g, x, y) \<and> extendedEuclid A B = Some (g, x, y)"
  using extendedEuclid_spec [of A B] by (auto simp add: extendedEuclid_1_eq)

text \<open>
  C3. The claim: for every \<open>B\<close>, either variant called with \<open>(0, B)\<close> returns \<open>(B, 0, 1)\<close>,
  the triple for which \<open>0 * X + B * Y = GCD\<close>. For \<open>B > 0\<close> lines 47, 48 and 74, 75 swap
  the operands to \<open>(B, 0)\<close> and the coefficients are never exchanged back, so both variants
  return \<open>(B, 1, 0)\<close>, for every \<open>B\<close>. On \<open>(0, 7)\<close> the result is \<open>(7, 1, 0)\<close>, and
  \<open>0 * 1 + 7 * 0\<close> is \<open>0\<close>, not \<open>7\<close>.
\<close>

theorem C3_zero_first_fails:
  "extendedEuclid 0 7 = Some (7, 1, 0) \<and>
   extendedEuclid_1 0 7 = Some (7, 1, 0) \<and>
   extendedEuclid 0 7 \<noteq> Some (7, 0, 1) \<and>
   extendedEuclid_1 0 7 \<noteq> Some (7, 0, 1) \<and>
   (0 * 1 + 7 * 0 :: u64) \<noteq> 7 \<and>
   extendedEuclid 0 B = Some (B, 1, 0) \<and>
   extendedEuclid_1 0 B = Some (B, 1, 0)"
proof -
  have "extendedEuclid 0 7 = Some (7, 1, 0)"
    by (simp add: extendedEuclid.simps)
  moreover have "extendedEuclid_1 0 7 = Some (7, 1, 0)"
    by (simp add: extendedEuclid_1_def euclid_loop.simps update_step_def)
  ultimately show ?thesis
    by (simp add: extendedEuclid_zero_left extendedEuclid_1_eq)
qed

text \<open>
  C4. For every pair \<open>(A, B)\<close> the \<open>GCD\<close> output of each variant, read as an unsigned
  number, is the greatest common divisor of \<open>A\<close> and \<open>B\<close>; on \<open>(0, 0)\<close> it is \<open>0\<close>.
\<close>

theorem C4_gcd_correct:
  "(\<exists>g x y. extendedEuclid A B = Some (g, x, y) \<and> unat g = gcd (unat A) (unat B)) \<and>
   (\<exists>g x y. extendedEuclid_1 A B = Some (g, x, y) \<and> unat g = gcd (unat A) (unat B)) \<and>
   map_option fst (extendedEuclid 0 0) = Some 0 \<and>
   map_option fst (extendedEuclid_1 0 0) = Some 0"
proof -
  from extendedEuclid_spec [of A B] obtain g x y
    where "extendedEuclid A B = Some (g, x, y)" and "unat g = gcd (unat A) (unat B)"
    by blast
  then show ?thesis
    by (simp add: extendedEuclid_1_eq extendedEuclid_zero_right)
qed

text \<open>
  C5. For every \<open>A\<close>, also \<open>A = 0\<close>, either variant called with second argument \<open>0\<close>
  returns \<open>(A, 1, 0)\<close>; the call on \<open>(0, 0)\<close> returns \<open>GCD = 0\<close>.
\<close>

theorem C5_zero_second:
  "extendedEuclid A 0 = Some (A, 1, 0) \<and>
   extendedEuclid_1 A 0 = Some (A, 1, 0) \<and>
   map_option fst (extendedEuclid 0 0) = Some 0 \<and>
   map_option fst (extendedEuclid_1 0 0) = Some 0"
  by (simp add: extendedEuclid_zero_right extendedEuclid_1_eq)

text \<open>
  C6. For every pair \<open>(A, B)\<close> and each variant, the calls on \<open>(A, B)\<close> and on \<open>(B, A)\<close>
  return the same \<open>GCD\<close>.
\<close>

theorem C6_gcd_symmetric:
  "(\<exists>g. map_option fst (extendedEuclid A B) = Some g \<and>
        map_option fst (extendedEuclid B A) = Some g) \<and>
   (\<exists>g. map_option fst (extendedEuclid_1 A B) = Some g \<and>
        map_option fst (extendedEuclid_1 B A) = Some g)"
proof -
  from extendedEuclid_spec [of A B] obtain g x y
    where "extendedEuclid A B = Some (g, x, y)"
    by blast
  moreover have "extendedEuclid B A = extendedEuclid A B"
    by (rule extendedEuclid_commute)
  ultimately show ?thesis
    by (simp add: extendedEuclid_1_eq)
qed

text \<open>
  C7. On \<open>(35, 15)\<close> each variant returns \<open>GCD = 5\<close> with \<open>35 * X + 15 * Y = 5\<close>, and on
  \<open>(240, 46)\<close> each variant returns \<open>GCD = 2\<close> with \<open>240 * X + 46 * Y = 2\<close>. The
  coefficients are \<open>(1, -2)\<close> and \<open>(-9, 47)\<close>, and the identities hold for the words and for
  their signed values.
\<close>

theorem C7_concrete_examples:
  "extendedEuclid 35 15 = Some (5, 1, - 2) \<and>
   extendedEuclid_1 35 15 = Some (5, 1, - 2) \<and>
   (35 * 1 + 15 * (- 2) :: u64) = 5 \<and>
   35 * sint (1 :: i64) + 15 * sint (- 2 :: i64) = 5 \<and>
   extendedEuclid 240 46 = Some (2, - 9, 47) \<and>
   extendedEuclid_1 240 46 = Some (2, - 9, 47) \<and>
   (240 * (- 9) + 46 * 47 :: u64) = 2 \<and>
   240 * sint (- 9 :: i64) + 46 * sint (47 :: i64) = 2"
proof -
  have "extendedEuclid 35 15 = Some (5, 1, - 2)"
    by (simp add: extendedEuclid.simps)
  moreover have "extendedEuclid_1 35 15 = Some (5, 1, - 2)"
    by (simp add: extendedEuclid_1_def euclid_loop.simps update_step_def)
  moreover have "extendedEuclid 240 46 = Some (2, - 9, 47)"
    by (simp add: extendedEuclid.simps)
  moreover have "extendedEuclid_1 240 46 = Some (2, - 9, 47)"
    by (simp add: extendedEuclid_1_def euclid_loop.simps update_step_def)
  ultimately show ?thesis
    by simp
qed

text \<open>
  C8. Both variants are total: for every pair \<open>(A, B)\<close>, also \<open>(0, 0)\<close>, the loop of the
  iterative variant ends, the recursion ends, and each variant returns a triple.
\<close>

theorem C8_total:
  "(\<exists>final. euclid_loop (min A B) (max A B) 0 1 1 0 = Some final) \<and>
   (\<exists>g x y. extendedEuclid_1 A B = Some (g, x, y)) \<and>
   (\<exists>g x y. extendedEuclid A B = Some (g, x, y))"
proof -
  from extendedEuclid_spec [of A B] obtain g x y
    where rec: "extendedEuclid A B = Some (g, x, y)"
    by blast
  then have "extendedEuclid (max A B) (min A B) = Some (g, x, y)"
    using extendedEuclid_max_min [of A B] by simp
  from euclid_loop_extendedEuclid [OF min_le_max_word this, of 0 1 1 0]
  have "\<exists>final. euclid_loop (min A B) (max A B) 0 1 1 0 = Some final"
    by blast
  with rec show ?thesis
    by (simp add: extendedEuclid_1_eq)
qed

text \<open>
  C9. For every pair \<open>(A, B)\<close> the triple returned by each variant satisfies
  \<open>max A B * X + min A B * Y = GCD\<close> modulo \<open>2 ^ 64\<close>: the identity holds for the operands
  in the swapped, larger-first order.
\<close>

theorem C9_bezout_larger_first:
  "(\<exists>g x y. extendedEuclid A B = Some (g, x, y) \<and>
      max A B * x + min A B * y = g \<and>
      unat g = (unat (max A B) * unat x + unat (min A B) * unat y) mod 2 ^ 64) \<and>
   (\<exists>g x y. extendedEuclid_1 A B = Some (g, x, y) \<and>
      max A B * x + min A B * y = g \<and>
      unat g = (unat (max A B) * unat x + unat (min A B) * unat y) mod 2 ^ 64)"
proof -
  from extendedEuclid_spec [of A B] obtain g x y
    where rec: "extendedEuclid A B = Some (g, x, y)"
      and bez: "max A B * x + min A B * y = g"
    by blast
  from bez have "unat g = (unat (max A B) * unat x + unat (min A B) * unat y) mod 2 ^ 64"
    using unat_bezout_wraps [of "max A B" x "min A B" y] by simp
  with rec bez show ?thesis
    by (simp add: extendedEuclid_1_eq)
qed

text \<open>
  C10. For every pair \<open>(A, B)\<close> and each variant, the calls on \<open>(A, B)\<close> and on \<open>(B, A)\<close>
  return the same triple \<open>(GCD, X, Y)\<close>.
\<close>

theorem C10_triple_commutative:
  "(\<exists>g x y. extendedEuclid A B = Some (g, x, y) \<and> extendedEuclid B A = Some (g, x, y)) \<and>
   (\<exists>g x y. extendedEuclid_1 A B = Some (g, x, y) \<and> extendedEuclid_1 B A = Some (g, x, y))"
proof -
  from extendedEuclid_spec [of A B] obtain g x y
    where "extendedEuclid A B = Some (g, x, y)"
    by blast
  moreover have "extendedEuclid B A = extendedEuclid A B"
    by (rule extendedEuclid_commute)
  ultimately show ?thesis
    by (simp add: extendedEuclid_1_eq)
qed

end
